theory Spec2Isabelle
  imports Main "HOL-Library.Sublist" "HOL-Library.AList"
begin

section \<open>Python string operations used by \<^verbatim>\<open>api.py\<close>\<close>

text \<open>
  Strings are character lists.  The separator of \<^verbatim>\<open>str.split\<close> and \<^verbatim>\<open>str.join\<close> is
  always the single character \<^verbatim>\<open>/\<close> in the source.
\<close>

definition slash :: char where
  "slash = CHR ''/''"

definition backslash :: char where
  "backslash = CHR 0x5C"

text \<open>\<^verbatim>\<open>s.split(c)\<close>: the pieces between the occurrences of \<open>c\<close>, empty pieces kept.\<close>

fun split_sep :: "char \<Rightarrow> string \<Rightarrow> string list" where
  "split_sep c [] = [[]]"
| "split_sep c (x # xs) =
     (if x = c then [] # split_sep c xs
      else (case split_sep c xs of [] \<Rightarrow> [[x]] | p # ps \<Rightarrow> (x # p) # ps))"

text \<open>\<^verbatim>\<open>c.join(parts)\<close>.\<close>

fun join_sep :: "char \<Rightarrow> string list \<Rightarrow> string" where
  "join_sep c [] = []"
| "join_sep c [p] = p"
| "join_sep c (p # q # ps) = p @ c # join_sep c (q # ps)"

text \<open>\<^verbatim>\<open>s.replace("\\", "/")\<close>.\<close>

definition replace_backslash :: "string \<Rightarrow> string" where
  "replace_backslash s = map (\<lambda>c. if c = backslash then slash else c) s"

text \<open>\<^verbatim>\<open>s.rstrip("/")\<close> and \<^verbatim>\<open>s.strip("/")\<close>.\<close>

definition rstrip_slash :: "string \<Rightarrow> string" where
  "rstrip_slash s = rev (dropWhile (\<lambda>c. c = slash) (rev s))"

definition strip_slash :: "string \<Rightarrow> string" where
  "strip_slash s = rstrip_slash (dropWhile (\<lambda>c. c = slash) s)"

section \<open>\<^verbatim>\<open>os.path.normpath\<close> on a POSIX system\<close>

text \<open>
  \<^verbatim>\<open>sanitize_path\<close> calls \<^verbatim>\<open>os.path.normpath\<close>, which belongs to the Python standard
  library and not to the repository.  It is modelled after \<^verbatim>\<open>posixpath.normpath\<close>,
  the implementation behind \<^verbatim>\<open>os.path\<close> on the POSIX systems the service is
  specified for: the number of leading slashes is 0, 1 or 2 (exactly two leading
  slashes are kept, three or more collapse to one); the path is split at \<^verbatim>\<open>/\<close>;
  empty components and \<^verbatim>\<open>.\<close> are dropped; \<^verbatim>\<open>..\<close> removes the component before it,
  is kept at the start of a relative path and dropped at the root; an empty result is
  \<^verbatim>\<open>.\<close>.
\<close>

definition initial_slashes :: "string \<Rightarrow> nat" where
  "initial_slashes path =
     (if prefix [slash] path
      then (if prefix [slash, slash] path \<and> \<not> prefix [slash, slash, slash] path then 2 else 1)
      else 0)"

text \<open>One round of the loop \<^verbatim>\<open>for comp in comps\<close>; \<open>new_comps\<close> grows at its end.\<close>

definition normpath_step :: "nat \<Rightarrow> string list \<Rightarrow> string \<Rightarrow> string list" where
  "normpath_step init new_comps part =
     (if part = [] \<or> part = ''.'' then new_comps
      else if part \<noteq> ''..'' \<or> (init = 0 \<and> new_comps = [])
              \<or> (new_comps \<noteq> [] \<and> last new_comps = ''..'')
           then new_comps @ [part]
      else if new_comps \<noteq> [] then butlast new_comps
      else new_comps)"

definition normpath :: "string \<Rightarrow> string" where
  "normpath path =
     (if path = [] then ''.''
      else
        let init = initial_slashes path;
            comps = foldl (normpath_step init) [] (split_sep slash path);
            joined = replicate init slash @ join_sep slash comps
        in if joined = [] then ''.'' else joined)"

section \<open>Path helpers of \<^verbatim>\<open>api.py\<close>\<close>

text \<open>\<^verbatim>\<open>sanitize_path(path)\<close>: \<^verbatim>\<open>str(os.path.normpath(path).replace("\\", "/"))\<close>.\<close>

definition sanitize_path :: "string \<Rightarrow> string" where
  "sanitize_path path = replace_backslash (normpath path)"

text \<open>
  \<^verbatim>\<open>validate_path(path)\<close>: no part of \<^verbatim>\<open>path.split('/')\<close> starts with \<^verbatim>\<open>.\<close>, \<^verbatim>\<open>_\<close> or
  \<^verbatim>\<open>venv\<close>, and \<^verbatim>\<open>&\<close> does not occur in the path.
\<close>

definition excluded_part :: "string \<Rightarrow> bool" where
  "excluded_part part = (prefix ''.'' part \<or> prefix ''_'' part \<or> prefix ''venv'' part)"

definition validate_path :: "string \<Rightarrow> bool" where
  "validate_path path =
     (\<not> list_ex excluded_part (split_sep slash path) \<and> CHR ''&'' \<notin> set path)"

section \<open>The local directory tree\<close>

text \<open>
  The local tree is a static snapshot for the duration of a pass.  A file carries its
  bytes, or \<open>None\<close> when it exists but cannot be opened for reading; a directory
  carries its entries in the order \<^verbatim>\<open>os.listdir\<close> reports them.  A path below the
  synchronised folder is the list of names leading to it; the folder itself is \<open>[]\<close>.
\<close>

type_synonym bytes = string

datatype node = File "bytes option" | Dir "(string \<times> node) list"

type_synonym entries = "(string \<times> node) list"

text \<open>\<^verbatim>\<open>os.listdir(local_dir)\<close> and \<^verbatim>\<open>os.path.isfile(os.path.join(local_dir, f))\<close>.\<close>

definition listdir :: "entries \<Rightarrow> string list" where
  "listdir es = map fst es"

definition isfile :: "entries \<Rightarrow> string \<Rightarrow> bool" where
  "isfile es f = (case map_of es f of Some (File _) \<Rightarrow> True | _ \<Rightarrow> False)"

text \<open>\<^verbatim>\<open>open(path, 'rb')\<close> followed by reading: the bytes, or \<open>None\<close> when that raises.\<close>

fun read_file :: "entries \<Rightarrow> string list \<Rightarrow> bytes option" where
  "read_file es [] = None"
| "read_file es [f] = (case map_of es f of Some (File content) \<Rightarrow> content | _ \<Rightarrow> None)"
| "read_file es (d # f # fs) =
     (case map_of es d of Some (Dir sub) \<Rightarrow> read_file sub (f # fs) | _ \<Rightarrow> None)"

text \<open>
  \<^verbatim>\<open>os.walk(local_folder)\<close>, top-down: a directory, then the walks of its
  subdirectories in listing order.  Only the \<^verbatim>\<open>root\<close> of each triple is used by the
  source; it is kept with its entries.
\<close>

fun walk_node :: "string list \<Rightarrow> node \<Rightarrow> (string list \<times> entries) list" where
  "walk_node root (File _) = []"
| "walk_node root (Dir es) =
     (root, es) # concat (map (\<lambda>e. walk_node (root @ [fst e]) (snd e)) es)"

definition walk :: "entries \<Rightarrow> (string list \<times> entries) list" where
  "walk local_folder = walk_node [] (Dir local_folder)"

text \<open>\<^verbatim>\<open>os.path.relpath(root, local_folder)\<close> for a \<^verbatim>\<open>root\<close> produced by the walk.\<close>

definition relpath :: "string list \<Rightarrow> string" where
  "relpath root = (if root = [] then ''.'' else join_sep slash root)"

section \<open>The remote store and the fingerprint\<close>

text \<open>
  The HTTP service and \<^verbatim>\<open>hashlib.md5\<close> are outside the repository; they are
  parameters.  Each request takes the state \<open>'r\<close> of the remote store and returns the
  status code of the response, the part of the body the source reads, and the new state.
\<close>

record item =
  item_name :: string
  item_md5 :: "string option"
  item_type :: string

record 'r env =
  md5_hexdigest :: "bytes \<Rightarrow> string"
  put_resource :: "string \<Rightarrow> 'r \<Rightarrow> nat \<times> 'r"
  get_resource :: "string \<Rightarrow> 'r \<Rightarrow> (nat \<times> item list) \<times> 'r"
  get_upload_link :: "string \<Rightarrow> 'r \<Rightarrow> (nat \<times> string option) \<times> 'r"
  put_content :: "string \<Rightarrow> bytes \<Rightarrow> 'r \<Rightarrow> nat \<times> 'r"
  delete_resource :: "string \<Rightarrow> 'r \<Rightarrow> nat \<times> 'r"

datatype error = FileNotFoundError string | OSError "string list"

text \<open>
  \<^verbatim>\<open>get_file_hash(filepath)\<close>: the digest of the bytes, \<open>None\<close> when opening or reading
  raises (the \<^verbatim>\<open>except Exception\<close> branch).
\<close>

definition get_file_hash :: "'r env \<Rightarrow> entries \<Rightarrow> string list \<Rightarrow> string option" where
  "get_file_hash E local_folder filepath =
     (case read_file local_folder filepath of
        Some content \<Rightarrow> Some (md5_hexdigest E content)
      | None \<Rightarrow> None)"

section \<open>\<^verbatim>\<open>YandexDiskAPI\<close>\<close>

record api =
  token :: string
  folder :: string
  max_concurrent_requests :: nat

text \<open>\<^verbatim>\<open>__init__\<close>; the limit defaults to 55.\<close>

definition init_api :: "string \<Rightarrow> string \<Rightarrow> nat \<Rightarrow> api" where
  "init_api tok fld limit =
     \<lparr>token = tok, folder = sanitize_path (rstrip_slash fld), max_concurrent_requests = limit\<rparr>"

text \<open>Python truthiness of an optional string: \<^verbatim>\<open>None\<close> and \<^verbatim>\<open>""\<close> are false.\<close>

definition truthy :: "string option \<Rightarrow> string option" where
  "truthy v = (case v of Some (c # cs) \<Rightarrow> Some (c # cs) | _ \<Rightarrow> None)"

definition get_full_path :: "api \<Rightarrow> string option \<Rightarrow> string option \<Rightarrow> string" where
  "get_full_path a remote_path filename =
     (case (truthy remote_path, truthy filename) of
        (Some p, Some f) \<Rightarrow> sanitize_path (strip_slash (folder a @ slash # p @ slash # f))
      | (None, Some f) \<Rightarrow> sanitize_path (strip_slash (folder a @ slash # f))
      | (Some p, None) \<Rightarrow> sanitize_path (strip_slash (folder a @ slash # p))
      | (None, None) \<Rightarrow> folder a)"

text \<open>
  The calls of the remote operations, in the order a pass issues them, with their
  arguments: \<^verbatim>\<open>create_folder(path)\<close>, \<^verbatim>\<open>get_info(remote_dir_path)\<close>,
  \<^verbatim>\<open>upload(file_path, remote_path)\<close> and \<^verbatim>\<open>delete(remote_path_to_file)\<close>.
\<close>

datatype call =
    CreateFolder "string option"
  | GetInfo string
  | Upload "string list" string
  | Delete string

definition create_folder :: "'r env \<Rightarrow> api \<Rightarrow> string option \<Rightarrow> 'r \<Rightarrow> bool \<times> 'r" where
  "create_folder E a path r =
     (let full_path = get_full_path a path None;
          (status, r') = put_resource E full_path r
      in (status = 201 \<or> status = 409, r'))"

text \<open>
  The dictionary comprehension of \<^verbatim>\<open>get_info\<close>: the entries of type \<^verbatim>\<open>file\<close>, a later
  entry of the same name replacing the value of an earlier one.
\<close>

definition cloud_dict :: "item list \<Rightarrow> (string \<times> string option) list" where
  "cloud_dict items =
     foldl (\<lambda>d it. AList.update (item_name it) (item_md5 it) d) []
       (filter (\<lambda>it. item_type it = ''file'') items)"

definition get_info ::
  "'r env \<Rightarrow> string \<Rightarrow> 'r \<Rightarrow> (error + (string \<times> string option) list) \<times> 'r" where
  "get_info E remote_dir_path r =
     (let ((status, items), r') = get_resource E remote_dir_path r
      in if status = 200 then (Inr (cloud_dict items), r')
         else (Inl (FileNotFoundError remote_dir_path), r'))"

text \<open>\<^verbatim>\<open>cloud_files.get(file)\<close>.\<close>

definition dict_get :: "(string \<times> string option) list \<Rightarrow> string \<Rightarrow> string option" where
  "dict_get d k = (case map_of d k of Some v \<Rightarrow> v | None \<Rightarrow> None)"

definition get_upload_url :: "'r env \<Rightarrow> string \<Rightarrow> 'r \<Rightarrow> string option \<times> 'r" where
  "get_upload_url E remote_path r =
     (let full_path = sanitize_path remote_path;
          ((status, href), r') = get_upload_link E full_path r
      in if status = 200 then (href, r') else (None, r'))"

text \<open>
  \<^verbatim>\<open>upload\<close>: \<^verbatim>\<open>open(file_path, "rb")\<close> is outside any \<^verbatim>\<open>try\<close>, so a file that cannot
  be opened makes the call raise once the upload link has been obtained.
\<close>

definition upload ::
  "'r env \<Rightarrow> entries \<Rightarrow> string list \<Rightarrow> string \<Rightarrow> 'r \<Rightarrow> (error + bool) \<times> 'r" where
  "upload E local_folder file_path remote_path r =
     (let (upload_url, r1) = get_upload_url E remote_path r
      in case truthy upload_url of
           Some url \<Rightarrow>
             (case read_file local_folder file_path of
                None \<Rightarrow> (Inl (OSError file_path), r1)
              | Some content \<Rightarrow>
                  (let (status, r2) = put_content E url content r1
                   in (Inr (status = 200 \<or> status = 201 \<or> status = 202), r2)))
         | None \<Rightarrow> (Inr False, r1))"

definition delete :: "'r env \<Rightarrow> string \<Rightarrow> 'r \<Rightarrow> bool \<times> 'r" where
  "delete E remote_path_to_file r =
     (let (status, r') = delete_resource E remote_path_to_file r
      in (status = 200 \<or> status = 202 \<or> status = 204, r'))"

text \<open>
  \<^verbatim>\<open>cleanup\<close>: \<open>files_to_delete\<close> is the set difference of the names.  Python leaves the
  iteration order of a set open; the model takes the order of the remote listing.
\<close>

definition files_to_delete :: "(string \<times> string option) list \<Rightarrow> string list \<Rightarrow> string list" where
  "files_to_delete cloud_files local_files =
     filter (\<lambda>n. n \<notin> set local_files) (map fst cloud_files)"

fun delete_all :: "'r env \<Rightarrow> api \<Rightarrow> string option \<Rightarrow> string list \<Rightarrow> 'r \<Rightarrow> 'r \<times> call list" where
  "delete_all E a remote_path [] r = (r, [])"
| "delete_all E a remote_path (remote_file # rest) r =
     (let target = get_full_path a remote_path (Some remote_file);
          (_, r1) = delete E target r;
          (r2, calls) = delete_all E a remote_path rest r1
      in (r2, Delete target # calls))"

definition cleanup ::
  "'r env \<Rightarrow> api \<Rightarrow> string option \<Rightarrow> (string \<times> string option) list \<Rightarrow> string list \<Rightarrow> 'r
     \<Rightarrow> 'r \<times> call list" where
  "cleanup E a remote_path cloud_files local_files r =
     delete_all E a remote_path (files_to_delete cloud_files local_files) r"

section \<open>Reconciliation of one directory\<close>

text \<open>
  An upload task is the pair of arguments of the \<^verbatim>\<open>upload\<close> coroutine that
  \<^verbatim>\<open>asyncio.create_task\<close> schedules.  The loop over \<open>local_files\<close> appends a task for
  every file whose local hash differs from \<^verbatim>\<open>cloud_files.get(file)\<close>.
\<close>

type_synonym task = "string list \<times> string"

fun queue_uploads ::
  "'r env \<Rightarrow> api \<Rightarrow> entries \<Rightarrow> string list \<Rightarrow> string option \<Rightarrow> (string \<times> string option) list
     \<Rightarrow> string list \<Rightarrow> task list \<Rightarrow> task list" where
  "queue_uploads E a local_folder local_dir remote_path cloud_files [] upload_tasks = upload_tasks"
| "queue_uploads E a local_folder local_dir remote_path cloud_files (file # rest) upload_tasks =
     (let local_file_path = local_dir @ [file];
          remote_file_path = get_full_path a remote_path (Some file);
          local_hash = get_file_hash E local_folder local_file_path;
          cloud_hash = dict_get cloud_files file
      in queue_uploads E a local_folder local_dir remote_path cloud_files rest
           (if local_hash \<noteq> cloud_hash
            then upload_tasks @ [(local_file_path, remote_file_path)]
            else upload_tasks))"

text \<open>
  \<^verbatim>\<open>sync_directory\<close>.  \<open>local_dir\<close> is the path of the directory below the synchronised
  folder and \<open>es\<close> its entries, as the walk found them (in a static snapshot
  \<^verbatim>\<open>os.listdir\<close> does not fail).  The \<^verbatim>\<open>FileNotFoundError\<close> of \<^verbatim>\<open>get_info\<close> is caught
  by the \<^verbatim>\<open>except\<close> clause, which only logs: nothing is queued and nothing is deleted.
  The result is the upload queue, the remote state and the calls issued.
\<close>

definition sync_directory ::
  "'r env \<Rightarrow> api \<Rightarrow> entries \<Rightarrow> string list \<Rightarrow> entries \<Rightarrow> string option \<Rightarrow> task list \<Rightarrow> 'r
     \<Rightarrow> task list \<times> 'r \<times> call list" where
  "sync_directory E a local_folder local_dir es remote_path upload_tasks r =
     (let (_, r1) = create_folder E a remote_path r;
          cur_path = get_full_path a remote_path None;
          (info, r2) = get_info E cur_path r1
      in case info of
           Inl e \<Rightarrow> (upload_tasks, r2, [CreateFolder remote_path, GetInfo cur_path])
         | Inr cloud_files \<Rightarrow>
             (let local_files = filter (\<lambda>f. validate_path f \<and> isfile es f) (listdir es);
                  queued = queue_uploads E a local_folder local_dir remote_path cloud_files
                             local_files upload_tasks;
                  (r3, deletes) = cleanup E a remote_path cloud_files (listdir es) r2
              in (queued, r3, [CreateFolder remote_path, GetInfo cur_path] @ deletes)))"

section \<open>A reconciliation pass\<close>

text \<open>\<^verbatim>\<open>create_folders_first\<close>: the loop over \<^verbatim>\<open>os.walk(local_folder)\<close>.\<close>

fun create_folders_loop ::
  "'r env \<Rightarrow> api \<Rightarrow> (string list \<times> entries) list \<Rightarrow> 'r \<Rightarrow> 'r \<times> call list" where
  "create_folders_loop E a [] r = (r, [])"
| "create_folders_loop E a ((root, es) # rest) r =
     (let remote_path = sanitize_path (relpath root)
      in if validate_path remote_path
         then (let (_, r1) = create_folder E a (Some remote_path) r;
                   (r2, calls) = create_folders_loop E a rest r1
               in (r2, CreateFolder (Some remote_path) # calls))
         else create_folders_loop E a rest r)"

definition create_folders_first :: "'r env \<Rightarrow> api \<Rightarrow> entries \<Rightarrow> 'r \<Rightarrow> 'r \<times> call list" where
  "create_folders_first E a local_folder r = create_folders_loop E a (walk local_folder) r"

text \<open>
  The \<^verbatim>\<open>else\<close> branch of \<^verbatim>\<open>sync_folder\<close>: a \<^verbatim>\<open>sync_directory\<close> for every walked
  directory other than the synchronised folder itself whose relative path is valid.
  \<^verbatim>\<open>asyncio.gather\<close> runs these coroutines interleaved; the model runs them one after
  the other, in the order of the walk.
\<close>

fun sync_subdirectories ::
  "'r env \<Rightarrow> api \<Rightarrow> entries \<Rightarrow> (string list \<times> entries) list \<Rightarrow> task list \<Rightarrow> 'r
     \<Rightarrow> task list \<times> 'r \<times> call list" where
  "sync_subdirectories E a local_folder [] upload_tasks r = (upload_tasks, r, [])"
| "sync_subdirectories E a local_folder ((root, es) # rest) upload_tasks r =
     (if root \<noteq> [] \<and> validate_path (sanitize_path (relpath root))
      then (let (queued, r1, calls1) =
                  sync_directory E a local_folder root es (Some (sanitize_path (relpath root)))
                    upload_tasks r;
                (queued', r2, calls2) = sync_subdirectories E a local_folder rest queued r1
            in (queued', r2, calls1 @ calls2))
      else sync_subdirectories E a local_folder rest upload_tasks r)"

text \<open>
  \<^verbatim>\<open>asyncio.gather(*upload_tasks)\<close>.  The tasks run interleaved with the rest of the
  pass from the moment they are created; the model runs them at the gather, in queue
  order.  Every task runs, also after one of them has raised.
\<close>

fun run_uploads ::
  "'r env \<Rightarrow> entries \<Rightarrow> task list \<Rightarrow> 'r \<Rightarrow> (error + bool) list \<times> 'r \<times> call list" where
  "run_uploads E local_folder [] r = ([], r, [])"
| "run_uploads E local_folder ((file_path, remote_path) # rest) r =
     (let (res, r1) = upload E local_folder file_path remote_path r;
          (ress, r2, calls) = run_uploads E local_folder rest r1
      in (res # ress, r2, Upload file_path remote_path # calls))"

fun first_error :: "(error + bool) list \<Rightarrow> error option" where
  "first_error [] = None"
| "first_error (Inl e # rest) = Some e"
| "first_error (Inr b # rest) = first_error rest"

text \<open>
  The outcome of \<^verbatim>\<open>sync_folder\<close>: the exception it raised, if any, the class attribute
  \<^verbatim>\<open>YandexDiskAPI.first_run\<close> and the remote state afterwards, the calls issued, and
  which branch of \<^verbatim>\<open>if YandexDiskAPI.first_run\<close> was taken.
\<close>

datatype branch = Bootstrap | Incremental

record 'r pass =
  raised :: "error option"
  first_run_after :: bool
  remote_after :: 'r
  issued :: "call list"
  branch_taken :: branch

text \<open>
  \<^verbatim>\<open>sync_folder\<close>.  \<open>first_run\<close> is the class attribute, shared by all instances; the
  assignment \<^verbatim>\<open>YandexDiskAPI.first_run = False\<close> is the last statement, reached only
  when the gather of the uploads has not raised.
\<close>

definition sync_folder :: "'r env \<Rightarrow> api \<Rightarrow> entries \<Rightarrow> bool \<Rightarrow> 'r \<Rightarrow> 'r pass" where
  "sync_folder E a local_folder first_run r =
     (let (queued1, r1, calls1) = sync_directory E a local_folder [] local_folder None [] r;
          (queued2, r2, calls2) =
            (if first_run
             then (let (r', calls) = create_folders_first E a local_folder r1
                   in (queued1, r', calls))
             else sync_subdirectories E a local_folder (walk local_folder) queued1 r1);
          (results, r3, calls3) = run_uploads E local_folder queued2 r2
      in \<lparr>raised = first_error results,
          first_run_after = (case first_error results of Some e \<Rightarrow> first_run | None \<Rightarrow> False),
          remote_after = r3,
          issued = calls1 @ calls2 @ calls3,
          branch_taken = (if first_run then Bootstrap else Incremental)\<rparr>)"

section \<open>The coordinator (\<^verbatim>\<open>main.py\<close>)\<close>

text \<open>
  \<^verbatim>\<open>main\<close> calls \<^verbatim>\<open>sync_files\<close> in a loop.  Each cycle sees the local folder as it
  is then (\<open>None\<close> when it does not exist: the cycle returns at once) and constructs a
  fresh \<^verbatim>\<open>YandexDiskAPI\<close>.  An exception of \<^verbatim>\<open>sync_folder\<close> is not caught and ends the
  process.  The list of snapshots is the sequence of cycles observed.
\<close>

fun main_loop ::
  "'r env \<Rightarrow> string \<Rightarrow> string \<Rightarrow> entries option list \<Rightarrow> bool \<Rightarrow> 'r \<Rightarrow> 'r pass list" where
  "main_loop E tok fld [] first_run r = []"
| "main_loop E tok fld (None # cycles) first_run r = main_loop E tok fld cycles first_run r"
| "main_loop E tok fld (Some local_folder # cycles) first_run r =
     (let p = sync_folder E (init_api tok fld 55) local_folder first_run r
      in p # (case raised p of
                Some e \<Rightarrow> []
              | None \<Rightarrow> main_loop E tok fld cycles (first_run_after p) (remote_after p)))"

section \<open>An in-memory remote store for the concrete scenarios\<close>

text \<open>
  The scenarios below need a remote store that answers.  This one keeps the folders
  that exist and the digest of every file, and answers with the status codes of the
  service: creating a folder gives 201, or 409 when it exists; listing a folder gives
  200 with its direct children, or 404 when the folder does not exist; asking for an
  upload link gives 200 and a link that names the target; sending the content gives
  201 and stores its digest; deleting gives 204, or 404 when there is no such file.
\<close>

record disk =
  folders :: "string list"
  files :: "(string \<times> string) list"

definition child_name :: "string \<Rightarrow> string \<Rightarrow> string option" where
  "child_name dir p =
     (let rest = drop (length dir + 1) p
      in if prefix (dir @ [slash]) p \<and> rest \<noteq> [] \<and> slash \<notin> set rest then Some rest else None)"

definition disk_items :: "string \<Rightarrow> disk \<Rightarrow> item list" where
  "disk_items dir d =
     concat (map (\<lambda>(p, h). case child_name dir p of
                    Some n \<Rightarrow> [\<lparr>item_name = n, item_md5 = Some h, item_type = ''file''\<rparr>]
                  | None \<Rightarrow> []) (files d))
     @ concat (map (\<lambda>p. case child_name dir p of
                    Some n \<Rightarrow> [\<lparr>item_name = n, item_md5 = None, item_type = ''dir''\<rparr>]
                  | None \<Rightarrow> []) (folders d))"

definition disk_env :: "(bytes \<Rightarrow> string) \<Rightarrow> disk env" where
  "disk_env H =
     \<lparr>md5_hexdigest = H,
      put_resource = (\<lambda>p d. if p \<in> set (folders d) then (409, d)
                            else (201, d\<lparr>folders := folders d @ [p]\<rparr>)),
      get_resource = (\<lambda>p d. if p \<in> set (folders d) then ((200, disk_items p d), d)
                            else ((404, []), d)),
      get_upload_link = (\<lambda>p d. ((200, Some (''upload:'' @ p)), d)),
      put_content = (\<lambda>url content d.
                       (201, d\<lparr>files := AList.update (drop 7 url) (H content) (files d)\<rparr>)),
      delete_resource = (\<lambda>p d. if p \<in> fst ` set (files d)
                               then (204, d\<lparr>files := AList.delete p (files d)\<rparr>)
                               else (404, d))\<rparr>"

definition empty_disk :: disk where
  "empty_disk = \<lparr>folders = [], files = []\<rparr>"

text \<open>
  The digest of the scenarios.  Their outcome is the same for every digest function;
  the identity stands for one without collisions.
\<close>

definition plain_digest :: "bytes \<Rightarrow> string" where
  "plain_digest content = content"

text \<open>
  The example of the specification: \<^verbatim>\<open>a.txt\<close> with bytes \<^verbatim>\<open>x\<close> and \<^verbatim>\<open>b/b.txt\<close> with
  bytes \<^verbatim>\<open>y\<close>, synchronised to the remote folder \<^verbatim>\<open>backup\<close>.
\<close>

definition example_tree :: entries where
  "example_tree = [(''a.txt'', File (Some ''x'')), (''b'', Dir [(''b.txt'', File (Some ''y''))])]"

definition example_api :: api where
  "example_api = init_api ''secret'' ''backup'' 55"

text \<open>Counting the calls of a pass.\<close>

fun is_create :: "call \<Rightarrow> bool" where
  "is_create (CreateFolder p) = True"
| "is_create c = False"

fun is_upload :: "call \<Rightarrow> bool" where
  "is_upload (Upload f p) = True"
| "is_upload c = False"

fun is_delete :: "call \<Rightarrow> bool" where
  "is_delete (Delete p) = True"
| "is_delete c = False"

section \<open>Auxiliary predicates\<close>

text \<open>
  The shape of the component list that the loop of \<^verbatim>\<open>normpath\<close> maintains: no empty
  component, no \<^verbatim>\<open>.\<close>, no separator inside a component, and \<^verbatim>\<open>..\<close> only as a leading
  block of a relative path.
\<close>

definition normal_comps :: "nat \<Rightarrow> string list \<Rightarrow> bool" where
  "normal_comps init ps =
     ((\<forall>p\<in>set ps. p \<noteq> [] \<and> p \<noteq> ''.'' \<and> slash \<notin> set p)
      \<and> (init \<noteq> 0 \<longrightarrow> ''..'' \<notin> set ps)
      \<and> successively (\<lambda>p q. q = ''..'' \<longrightarrow> p = ''..'') ps)"

text \<open>
  The names a POSIX directory can hold: not empty, not \<^verbatim>\<open>.\<close> or \<^verbatim>\<open>..\<close>, without a
  separator.  A tree is well formed when all its names are such.
\<close>

definition real_name :: "string \<Rightarrow> bool" where
  "real_name n = (n \<noteq> [] \<and> n \<noteq> ''.'' \<and> n \<noteq> ''..'' \<and> slash \<notin> set n)"

fun wf_node :: "node \<Rightarrow> bool" where
  "wf_node (File content) = True"
| "wf_node (Dir es) = list_all (\<lambda>e. real_name (fst e) \<and> wf_node (snd e)) es"

text \<open>The remote store that answers every listing with a server error.\<close>

definition failing_env :: "disk env" where
  "failing_env = (disk_env plain_digest)\<lparr>get_resource := (\<lambda>p d. ((500, []), d))\<rparr>"

text \<open>A remote folder that holds a file the local folder does not have.\<close>

definition stale_disk :: disk where
  "stale_disk = \<lparr>folders = [''backup''], files = [(''backup/old.txt'', ''z'')]\<rparr>"



text \<open>A local file that exists but cannot be read, and a remote folder that has it.\<close>

definition locked_tree :: entries where
  "locked_tree = [(''a.txt'', File None)]"

definition synced_disk :: disk where
  "synced_disk = \<lparr>folders = [''backup''], files = [(''backup/a.txt'', ''x'')]\<rparr>"

text \<open>A local folder with excluded directories and files next to eligible ones.\<close>

definition mixed_tree :: entries where
  "mixed_tree =
     [(''a.txt'', File (Some ''x'')),
      (''.git'', Dir [(''config'', File (Some ''c''))]),
      (''_tmp.txt'', File (Some ''t'')),
      (''b'', Dir [(''b.txt'', File (Some ''y'')), (''q&a.txt'', File (Some ''q''))]),
      (''venv3'', Dir [(''lib.py'', File (Some ''l''))])]"

section \<open>Splitting and joining\<close>

lemma split_sep_not_Nil: "split_sep c s \<noteq> []"
  by (induction s) (auto split: list.splits)

lemma split_sep_append: "split_sep c (a @ c # b) = split_sep c a @ split_sep c b"
  by (induction a) (auto split: list.splits simp: split_sep_not_Nil)

lemma split_sep_no_sep: "c \<notin> set s \<Longrightarrow> split_sep c s = [s]"
  by (induction s) auto

lemma split_sep_part_no_sep: "p \<in> set (split_sep c s) \<Longrightarrow> c \<notin> set p"
  by (induction s arbitrary: p) (auto split: list.splits if_splits)

lemma split_sep_part_chars: "p \<in> set (split_sep c s) \<Longrightarrow> x \<in> set p \<Longrightarrow> x \<in> set s"
proof (induction s arbitrary: p)
  case Nil
  then show ?case by simp
next
  case (Cons a s)
  show ?case
  proof (cases "a = c")
    case True
    with Cons show ?thesis by auto
  next
    case False
    obtain q qs where q: "split_sep c s = q # qs"
      using split_sep_not_Nil[of c s] by (cases "split_sep c s") auto
    with False Cons.prems have "p = a # q \<or> p \<in> set qs" by simp
    then show ?thesis
    proof
      assume "p = a # q"
      with Cons.prems(2) have "x = a \<or> x \<in> set q" by simp
      with Cons.IH[of q] q show ?thesis by auto
    next
      assume "p \<in> set qs"
      with Cons.IH[of p] q Cons.prems(2) show ?thesis by auto
    qed
  qed
qed

lemma split_join: "ps \<noteq> [] \<Longrightarrow> \<forall>p\<in>set ps. c \<notin> set p \<Longrightarrow> split_sep c (join_sep c ps) = ps"
proof (induction c ps rule: join_sep.induct)
  case (3 c p q ps)
  then show ?case by (simp add: split_sep_append split_sep_no_sep)
qed (simp_all add: split_sep_no_sep)

lemma join_sep_chars: "x \<in> set (join_sep c ps) \<Longrightarrow> x = c \<or> (\<exists>p\<in>set ps. x \<in> set p)"
  by (induction c ps rule: join_sep.induct) auto

lemma split_sep_replicate: "split_sep c (replicate n c @ s) = replicate n [] @ split_sep c s"
  by (induction n) auto

lemma split_sep_replicate_only: "split_sep c (replicate n c) = replicate n [] @ [[]]"
  using split_sep_replicate[of c n "[]"] by simp

section \<open>\<^verbatim>\<open>normpath\<close> reaches a fixed point\<close>

lemma normpath_step_Nil: "normpath_step init ps [] = ps"
  by (simp add: normpath_step_def)

lemma foldl_step_empties: "foldl (normpath_step init) acc (replicate n [] @ xs) = foldl (normpath_step init) acc xs"
  by (induction n) (simp_all add: normpath_step_Nil)

lemma foldl_step_empties_only: "foldl (normpath_step init) acc (replicate n []) = acc"
  using foldl_step_empties[of init acc n "[]"] by simp

lemma normal_comps_butlast: "normal_comps init ps \<Longrightarrow> normal_comps init (butlast ps)"
proof (cases "ps = []")
  case True
  assume "normal_comps init ps"
  with True show ?thesis by simp
next
  case False
  assume n: "normal_comps init ps"
  from False have "ps = butlast ps @ [last ps]" by simp
  then have "successively (\<lambda>p q. q = ''..'' \<longrightarrow> p = ''..'') (butlast ps @ [last ps])"
    using n by (simp add: normal_comps_def)
  then have "successively (\<lambda>p q. q = ''..'' \<longrightarrow> p = ''..'') (butlast ps)"
    by (simp add: successively_append_iff)
  with n show ?thesis
    by (auto simp: normal_comps_def dest: in_set_butlastD)
qed

lemma normal_step:
  assumes n: "normal_comps init ps" and p: "slash \<notin> set p"
  shows "normal_comps init (normpath_step init ps p)"
proof -
  have snoc: "normal_comps init (ps @ [p])"
    if "p \<noteq> []" "p \<noteq> ''.''"
      "p \<noteq> ''..'' \<or> (init = 0 \<and> ps = []) \<or> (ps \<noteq> [] \<and> last ps = ''..'')"
  proof -
    have "ps \<noteq> [] \<Longrightarrow> last ps = ''..'' \<Longrightarrow> init = 0"
      using n last_in_set[of ps] by (auto simp: normal_comps_def)
    with that(3) have "p = ''..'' \<Longrightarrow> init = 0"
      by blast
    moreover have "ps \<noteq> [] \<Longrightarrow> p = ''..'' \<Longrightarrow> last ps = ''..''"
      using that(3) by auto
    ultimately show ?thesis
      using n p that(1,2) by (auto simp: normal_comps_def successively_append_iff)
  qed
  show ?thesis
    using n snoc normal_comps_butlast[OF n] by (auto simp: normpath_step_def)
qed

lemma normal_foldl:
  "normal_comps init acc \<Longrightarrow> \<forall>p\<in>set xs. slash \<notin> set p
     \<Longrightarrow> normal_comps init (foldl (normpath_step init) acc xs)"
  by (induction xs arbitrary: acc) (simp_all add: normal_step)

lemma normal_fixpoint:
  "normal_comps init (acc @ xs) \<Longrightarrow> foldl (normpath_step init) acc xs = acc @ xs"
proof (induction xs arbitrary: acc)
  case Nil
  then show ?case by simp
next
  case (Cons x xs)
  from Cons.prems have n: "normal_comps init ((acc @ [x]) @ xs)" by simp
  from Cons.prems have x: "x \<noteq> []" "x \<noteq> ''.''" by (auto simp: normal_comps_def)
  have "x = ''..'' \<Longrightarrow> init = 0 \<and> (acc = [] \<or> last acc = ''..'')"
    using Cons.prems by (auto simp: normal_comps_def successively_append_iff)
  then have "normpath_step init acc x = acc @ [x]"
    using x by (auto simp: normpath_step_def)
  with Cons.IH[OF n] show ?case by simp
qed

lemma initial_slashes_le: "initial_slashes s \<le> 2"
  by (simp add: initial_slashes_def)

lemma join_sep_Nil_iff: "\<forall>p\<in>set ps. p \<noteq> [] \<Longrightarrow> join_sep c ps = [] \<longleftrightarrow> ps = []"
  by (induction c ps rule: join_sep.induct) auto

lemma join_sep_hd: "ps \<noteq> [] \<Longrightarrow> hd ps \<noteq> [] \<Longrightarrow> hd (join_sep c ps) = hd (hd ps) \<and> join_sep c ps \<noteq> []"
  by (induction c ps rule: join_sep.induct) auto

lemma no_leading_slash:
  assumes "normal_comps init ps"
  shows "\<not> prefix [slash] (join_sep slash ps)"
proof (cases ps)
  case Nil
  then show ?thesis by simp
next
  case (Cons p qs)
  with assms have "p \<noteq> []" "slash \<notin> set p" by (auto simp: normal_comps_def)
  then have "hd p \<noteq> slash" by (cases p) auto
  moreover have "hd (join_sep slash ps) = hd p \<and> join_sep slash ps \<noteq> []"
    using join_sep_hd[of ps slash] Cons \<open>p \<noteq> []\<close> by simp
  ultimately show ?thesis by (cases "join_sep slash ps") auto
qed

lemma initial_slashes_joined:
  assumes "normal_comps init ps" "init \<le> 2"
  shows "initial_slashes (replicate init slash @ join_sep slash ps) = init"
proof -
  have "init = 0 \<or> init = 1 \<or> init = 2" using assms(2) by auto
  then show ?thesis
    using no_leading_slash[OF assms(1)]
    by (auto simp: initial_slashes_def numeral_2_eq_2)
qed

lemma normpath_idem: "normpath (normpath path) = normpath path"
proof -
  define init where "init = initial_slashes path"
  define comps where "comps = foldl (normpath_step init) [] (split_sep slash path)"
  define joined where "joined = replicate init slash @ join_sep slash comps"
  have n: "normal_comps init comps"
    unfolding comps_def
    by (rule normal_foldl) (auto simp: normal_comps_def dest: split_sep_part_no_sep)
  have dot: "normpath ''.'' = ''.''"
    by (simp add: normpath_def initial_slashes_def normpath_step_def slash_def)
  show ?thesis
  proof (cases "path = [] \<or> joined = []")
    case True
    then have "normpath path = ''.''"
      by (auto simp: normpath_def Let_def init_def comps_def joined_def)
    with dot show ?thesis by simp
  next
    case False
    then have np: "normpath path = joined"
      by (auto simp: normpath_def Let_def init_def comps_def joined_def)
    have i: "initial_slashes joined = init"
      unfolding joined_def using n initial_slashes_le[of path]
      by (intro initial_slashes_joined) (auto simp: init_def)
    have parts: "\<forall>p\<in>set comps. slash \<notin> set p" using n by (auto simp: normal_comps_def)
    have "foldl (normpath_step init) [] (split_sep slash joined) = comps"
    proof (cases "comps = []")
      case True
      then show ?thesis
        by (simp add: joined_def split_sep_replicate_only foldl_step_empties_only normpath_step_Nil)
    next
      case False
      then show ?thesis
        using n parts
        by (simp add: joined_def split_sep_replicate foldl_step_empties_only split_join
            normal_fixpoint)
    qed
    then have "normpath joined = joined"
      using False i by (simp add: normpath_def Let_def joined_def)
    with np show ?thesis by simp
  qed
qed

lemma foldl_step_subset:
  "p \<in> set (foldl (normpath_step init) acc xs) \<Longrightarrow> p \<in> set acc \<or> p \<in> set xs"
proof (induction xs arbitrary: acc)
  case Nil
  then show ?case by simp
next
  case (Cons x xs)
  from Cons.prems have "p \<in> set (foldl (normpath_step init) (normpath_step init acc x) xs)"
    by simp
  then have "p \<in> set (normpath_step init acc x) \<or> p \<in> set xs"
    by (rule Cons.IH)
  moreover have "p \<in> set (normpath_step init acc x) \<Longrightarrow> p \<in> set acc \<or> p = x"
    by (auto simp: normpath_step_def dest: in_set_butlastD split: if_splits)
  ultimately show ?case by auto
qed

lemma normpath_chars:
  assumes "x \<in> set (normpath path)"
  shows "x \<in> set path \<or> x = slash \<or> x = CHR ''.''"
proof -
  define init where "init = initial_slashes path"
  define comps where "comps = foldl (normpath_step init) [] (split_sep slash path)"
  have comps: "y \<in> set path" if "p \<in> set comps" "y \<in> set p" for p y
  proof -
    from that(1) have "p \<in> set (split_sep slash path)"
      unfolding comps_def using foldl_step_subset[of p init "[]"] by auto
    then show ?thesis using that(2) by (rule split_sep_part_chars)
  qed
  from assms have "x = CHR ''.'' \<or> x \<in> set (replicate init slash @ join_sep slash comps)"
    by (auto simp: normpath_def Let_def init_def comps_def split: if_splits)
  then show ?thesis
    using comps join_sep_chars[of x slash comps] by auto
qed

lemma replace_backslash_id: "backslash \<notin> set s \<Longrightarrow> replace_backslash s = s"
  by (auto simp: replace_backslash_def intro: map_idI)

lemma replace_backslash_free: "backslash \<notin> set (replace_backslash s)"
  by (auto simp: replace_backslash_def slash_def backslash_def)

lemma normpath_backslash_free: "backslash \<notin> set path \<Longrightarrow> backslash \<notin> set (normpath path)"
  using normpath_chars[of backslash path] by (auto simp: slash_def backslash_def)

lemma sanitize_path_backslash_free: "backslash \<notin> set (sanitize_path path)"
  by (simp add: sanitize_path_def replace_backslash_free)

lemma sanitize_path_idem_plain:
  "backslash \<notin> set path \<Longrightarrow> sanitize_path (sanitize_path path) = sanitize_path path"
  by (simp add: sanitize_path_def normpath_backslash_free replace_backslash_id normpath_idem)

section \<open>Path normalisation\<close>

text \<open>
  Claim C7 at a failing input: \<open>normalize (normalize p) = normalize p\<close> for every
  path.  \<^verbatim>\<open>sanitize_path\<close> replaces the backslashes after \<^verbatim>\<open>normpath\<close> has run.  On a
  POSIX system a backslash is an ordinary character of a name, so \<^verbatim>\<open>normpath\<close> leaves
  the paths \<^verbatim>\<open>a\\<close> and \<^verbatim>\<open>a\..\b\<close> alone, and the replacement turns them into \<^verbatim>\<open>a/\<close>
  and \<^verbatim>\<open>a/../b\<close>: separators that \<^verbatim>\<open>normpath\<close> never saw, in a result that is not
  normalised.  A second application gives \<^verbatim>\<open>a\<close> and \<^verbatim>\<open>b\<close>.
\<close>

theorem sanitize_path_not_idempotent:
  "sanitize_path [CHR ''a'', backslash] = ''a/''
   \<and> sanitize_path (sanitize_path [CHR ''a'', backslash]) = ''a''
   \<and> sanitize_path (sanitize_path [CHR ''a'', backslash]) \<noteq> sanitize_path [CHR ''a'', backslash]
   \<and> sanitize_path [CHR ''a'', backslash, CHR ''.'', CHR ''.'', backslash, CHR ''b''] = ''a/../b''
   \<and> sanitize_path
         (sanitize_path [CHR ''a'', backslash, CHR ''.'', CHR ''.'', backslash, CHR ''b'']) = ''b''"
  by (simp add: sanitize_path_def normpath_def initial_slashes_def normpath_step_def
      replace_backslash_def slash_def backslash_def)

section \<open>Calls issued by the parts of a pass\<close>

lemma delete_all_calls:
  "snd (delete_all E a remote_path names r)
     = map (\<lambda>n. Delete (get_full_path a remote_path (Some n))) names"
  by (induction names arbitrary: r) (simp_all add: Let_def case_prod_beta)

lemma cleanup_calls:
  "snd (cleanup E a remote_path cloud_files local_files r)
     = map (\<lambda>n. Delete (get_full_path a remote_path (Some n)))
         (files_to_delete cloud_files local_files)"
  by (simp add: cleanup_def delete_all_calls)


lemma sync_directory_calls:
  "snd (snd (sync_directory E a local_folder local_dir es remote_path upload_tasks r))
     = [CreateFolder remote_path, GetInfo (get_full_path a remote_path None)]
       @ (case fst (get_info E (get_full_path a remote_path None)
                      (snd (create_folder E a remote_path r))) of
            Inl e \<Rightarrow> []
          | Inr cloud_files \<Rightarrow>
              map (\<lambda>n. Delete (get_full_path a remote_path (Some n)))
                (files_to_delete cloud_files (listdir es)))"
  by (simp add: sync_directory_def Let_def case_prod_beta cleanup_calls split: sum.splits)




lemma create_folders_loop_calls:
  "snd (create_folders_loop E a walked r)
     = map (\<lambda>w. CreateFolder (Some (sanitize_path (relpath (fst w)))))
         (filter (\<lambda>w. validate_path (sanitize_path (relpath (fst w)))) walked)"
proof (induction walked arbitrary: r)
  case Nil
  then show ?case by simp
next
  case (Cons w walked)
  then show ?case by (cases w) (simp add: Let_def case_prod_beta)
qed

lemma run_uploads_calls:
  "snd (snd (run_uploads E local_folder tasks r)) = map (\<lambda>(f, p). Upload f p) tasks"
proof (induction tasks arbitrary: r)
  case Nil
  then show ?case by simp
next
  case (Cons t tasks)
  then show ?case by (cases t) (simp add: Let_def case_prod_beta)
qed

lemma sync_folder_issued:
  "issued (sync_folder E a local_folder first_run r)
     = snd (snd (sync_directory E a local_folder [] local_folder None [] r))
       @ (if first_run
          then snd (create_folders_first E a local_folder
                      (fst (snd (sync_directory E a local_folder [] local_folder None [] r))))
          else snd (snd (sync_subdirectories E a local_folder (walk local_folder)
                      (fst (sync_directory E a local_folder [] local_folder None [] r))
                      (fst (snd (sync_directory E a local_folder [] local_folder None [] r))))))
       @ map (\<lambda>(f, p). Upload f p)
           (if first_run
            then fst (sync_directory E a local_folder [] local_folder None [] r)
            else fst (sync_subdirectories E a local_folder (walk local_folder)
                      (fst (sync_directory E a local_folder [] local_folder None [] r))
                      (fst (snd (sync_directory E a local_folder [] local_folder None [] r)))))"
  by (simp add: sync_folder_def Let_def case_prod_beta run_uploads_calls)

section \<open>The concrete scenarios, evaluated\<close>

lemma example_full_paths:
  "get_full_path example_api None None = ''backup''"
  "get_full_path example_api None (Some ''old.txt'') = ''backup/old.txt''"
  "get_full_path example_api None (Some ''.hidden'') = ''backup/.hidden''"
  "get_full_path example_api None (Some ''a.txt'') = ''backup/a.txt''"
  "get_full_path example_api (Some ''b'') None = ''backup/b''"
  "get_full_path example_api (Some ''b'') (Some ''b.txt'') = ''backup/b/b.txt''"
  by (simp_all add: get_full_path_def example_api_def init_api_def truthy_def strip_slash_def
      rstrip_slash_def sanitize_path_def normpath_def initial_slashes_def normpath_step_def
      replace_backslash_def slash_def backslash_def)

lemma example_sanitized:
  "sanitize_path ''.'' = ''.''"
  "sanitize_path ''b'' = ''b''"
  "sanitize_path ''backup/a.txt'' = ''backup/a.txt''"
  "sanitize_path ''backup/b/b.txt'' = ''backup/b/b.txt''"
  by (simp_all add: sanitize_path_def normpath_def initial_slashes_def normpath_step_def
      replace_backslash_def slash_def backslash_def)

lemma example_validated:
  "\<not> validate_path ''.''" "validate_path ''b''" "validate_path ''a.txt''"
  "validate_path ''b.txt''" "\<not> validate_path ''.hidden''" "validate_path ''old.txt''"
  by (simp_all add: validate_path_def excluded_part_def slash_def)

lemmas pass_defs =
  sync_folder_def sync_directory_def create_folders_first_def walk_def relpath_def
  create_folder_def get_info_def get_upload_url_def upload_def delete_def cleanup_def
  files_to_delete_def get_file_hash_def dict_get_def cloud_dict_def listdir_def isfile_def
  truthy_def disk_env_def disk_items_def child_name_def empty_disk_def slash_def

lemma example_pass1:
  "sync_folder (disk_env H) example_api example_tree True empty_disk
     = \<lparr>raised = None, first_run_after = False,
        remote_after = \<lparr>folders = [''backup'', ''backup/b''], files = [(''backup/a.txt'', H ''x'')]\<rparr>,
        issued = [CreateFolder None, GetInfo ''backup'', CreateFolder (Some ''b''),
                  Upload [''a.txt''] ''backup/a.txt''],
        branch_taken = Bootstrap\<rparr>"
  by (simp add: pass_defs example_tree_def example_full_paths example_sanitized
      example_validated Let_def)

lemma example_pass2:
  "sync_folder (disk_env H) example_api example_tree False
       \<lparr>folders = [''backup'', ''backup/b''], files = [(''backup/a.txt'', H ''x'')]\<rparr>
     = \<lparr>raised = None, first_run_after = False,
        remote_after = \<lparr>folders = [''backup'', ''backup/b''],
                         files = [(''backup/a.txt'', H ''x''), (''backup/b/b.txt'', H ''y'')]\<rparr>,
        issued = [CreateFolder None, GetInfo ''backup'', CreateFolder (Some ''b''),
                  GetInfo ''backup/b'', Upload [''b'', ''b.txt''] ''backup/b/b.txt''],
        branch_taken = Incremental\<rparr>"
  by (simp add: pass_defs example_tree_def example_full_paths example_sanitized
      example_validated Let_def)

lemma example_pass3:
  "sync_folder (disk_env H) example_api example_tree False
       \<lparr>folders = [''backup'', ''backup/b''],
          files = [(''backup/a.txt'', H ''x''), (''backup/b/b.txt'', H ''y'')]\<rparr>
     = \<lparr>raised = None, first_run_after = False,
        remote_after = \<lparr>folders = [''backup'', ''backup/b''],
                         files = [(''backup/a.txt'', H ''x''), (''backup/b/b.txt'', H ''y'')]\<rparr>,
        issued = [CreateFolder None, GetInfo ''backup'', CreateFolder (Some ''b''),
                  GetInfo ''backup/b''],
        branch_taken = Incremental\<rparr>"
  by (simp add: pass_defs example_tree_def example_full_paths example_sanitized
      example_validated Let_def)



lemma locked_pass:
  "sync_folder (disk_env plain_digest) example_api locked_tree first_run synced_disk
     = \<lparr>raised = Some (OSError [''a.txt'']), first_run_after = first_run,
        remote_after = synced_disk,
        issued = [CreateFolder None, GetInfo ''backup'', Upload [''a.txt''] ''backup/a.txt''],
        branch_taken = (if first_run then Bootstrap else Incremental)\<rparr>"
  by (simp add: pass_defs locked_tree_def synced_disk_def example_full_paths example_sanitized
      example_validated Let_def)

lemma mixed_sanitized:
  "sanitize_path ''.git'' = ''.git''" "sanitize_path ''venv3'' = ''venv3''"
  by (simp_all add: sanitize_path_def normpath_def initial_slashes_def normpath_step_def
      replace_backslash_def slash_def backslash_def)

lemma mixed_validated:
  "\<not> validate_path ''.git''" "\<not> validate_path ''venv3''" "\<not> validate_path ''_tmp.txt''"
  "\<not> validate_path ''q&a.txt''"
  by (simp_all add: validate_path_def excluded_part_def slash_def)

lemma mixed_pass_issued:
  "issued (sync_folder (disk_env plain_digest) example_api mixed_tree False empty_disk)
     = [CreateFolder None, GetInfo ''backup'', CreateFolder (Some ''b''), GetInfo ''backup/b'',
        Upload [''a.txt''] ''backup/a.txt'', Upload [''b'', ''b.txt''] ''backup/b/b.txt'']"
  by (simp add: pass_defs mixed_tree_def example_full_paths example_sanitized
      example_validated mixed_sanitized mixed_validated Let_def)

section \<open>Deletion\<close>






section \<open>The example of the specification\<close>

text \<open>
  Claim C2, as stated: in the example the first pass issues no upload and the second
  pass issues two.  The reconciliation of the synchronised folder itself precedes the
  branch on \<^verbatim>\<open>first_run\<close> and queues \<^verbatim>\<open>a.txt\<close>, and the gather of the queued uploads
  follows the branch in every pass: the first pass uploads \<^verbatim>\<open>a.txt\<close>.
\<close>

theorem example_bootstrap_uploads:
  "filter is_upload
     (issued (sync_folder (disk_env plain_digest) example_api example_tree True empty_disk))
     = [Upload [''a.txt''] ''backup/a.txt'']"
  by (simp add: example_pass1)

text \<open>
  Claim C2, amended: in the example the first pass performs exactly two
  \<^verbatim>\<open>create_folder\<close> calls, for the root and for \<^verbatim>\<open>b\<close>, and issues one upload, of
  \<^verbatim>\<open>a.txt\<close>, and no delete; the second pass issues one upload, of \<^verbatim>\<open>b/b.txt\<close>, and no
  delete; a third pass without local changes issues no upload and no delete.  This
  holds for every digest function.
\<close>

theorem example_three_passes:
  "(let E = disk_env H;
        p1 = sync_folder E example_api example_tree True empty_disk;
        p2 = sync_folder E example_api example_tree (first_run_after p1) (remote_after p1);
        p3 = sync_folder E example_api example_tree (first_run_after p2) (remote_after p2)
    in filter is_create (issued p1) = [CreateFolder None, CreateFolder (Some ''b'')]
       \<and> filter is_upload (issued p1) = [Upload [''a.txt''] ''backup/a.txt'']
       \<and> filter is_delete (issued p1) = []
       \<and> branch_taken p2 = Incremental
       \<and> filter is_upload (issued p2) = [Upload [''b'', ''b.txt''] ''backup/b/b.txt'']
       \<and> filter is_delete (issued p2) = []
       \<and> filter is_upload (issued p3) = []
       \<and> filter is_delete (issued p3) = [])"
  by (simp add: Let_def example_pass1 example_pass2 example_pass3)

theorem example_three_passes_witness:
  "(let E = disk_env plain_digest;
        p1 = sync_folder E example_api example_tree True empty_disk;
        p2 = sync_folder E example_api example_tree (first_run_after p1) (remote_after p1)
    in length (filter is_upload (issued p1)) = 1 \<and> length (filter is_upload (issued p2)) = 1)"
  using example_three_passes[of plain_digest]
  by (simp add: Let_def)

section \<open>Unreadable local files\<close>

text \<open>
  Claim C4 at a failing input: \<^verbatim>\<open>a.txt\<close> exists locally but cannot be read, and the
  remote folder lists \<^verbatim>\<open>a.txt\<close> with a digest.  \<^verbatim>\<open>get_file_hash\<close> returns \<open>None\<close>
  without raising, as claimed; but \<open>None\<close> differs from the remote digest, so the file
  is not skipped: its upload is queued and issued, \<^verbatim>\<open>open\<close> raises inside \<^verbatim>\<open>upload\<close>,
  and the pass ends with that exception, in the first pass and in any later one.
\<close>

theorem unreadable_file_is_uploaded:
  "get_file_hash (disk_env plain_digest) locked_tree [''a.txt''] = None
   \<and> issued (sync_folder (disk_env plain_digest) example_api locked_tree first_run synced_disk)
       = [CreateFolder None, GetInfo ''backup'', Upload [''a.txt''] ''backup/a.txt'']
   \<and> raised (sync_folder (disk_env plain_digest) example_api locked_tree first_run synced_disk)
       = Some (OSError [''a.txt''])"
proof -
  have "get_file_hash (disk_env plain_digest) locked_tree [''a.txt''] = None"
    by (simp add: get_file_hash_def locked_tree_def)
  then show ?thesis
    by (simp add: locked_pass)
qed

section \<open>Outcomes of the remote operations\<close>

text \<open>
  Claim C5, as stated: deleting a path that the remote does not have still reports
  success.  The remote answers 404, which is not among the statuses \<^verbatim>\<open>delete\<close> accepts.
\<close>

theorem delete_absent_reports_failure:
  "fst (delete_resource (disk_env plain_digest) ''backup/ghost.txt'' empty_disk) = 404
   \<and> \<not> fst (delete (disk_env plain_digest) ''backup/ghost.txt'' empty_disk)"
  by (simp add: delete_def disk_env_def empty_disk_def)

text \<open>
  Claim C5, amended: \<^verbatim>\<open>delete\<close> reports success exactly when the status of the
  response is 200, 202 or 204; every other response, the 404 for a path that does not
  exist included, is logged as an error and reported as failure.
\<close>

theorem delete_success_iff:
  "fst (delete E remote_path_to_file r)
     \<longleftrightarrow> fst (delete_resource E remote_path_to_file r) \<in> {200, 202, 204}"
  by (simp add: delete_def case_prod_beta)

theorem delete_success_iff_witness:
  "fst (delete_resource (disk_env plain_digest) ''backup/old.txt'' stale_disk) = 204
   \<and> fst (delete (disk_env plain_digest) ''backup/old.txt'' stale_disk)"
  using delete_success_iff[of "disk_env plain_digest" "''backup/old.txt''" stale_disk]
  by (simp add: disk_env_def stale_disk_def)

text \<open>
  Claim C6, as stated: the listing reports a folder that does not exist differently
  from a generic failure.  \<^verbatim>\<open>get_info\<close> raises the same \<^verbatim>\<open>FileNotFoundError\<close> for every
  status other than 200: the 404 of a missing folder and the 500 of a server error give
  the same outcome.
\<close>

theorem not_found_same_as_server_error:
  "fst (fst (get_resource (disk_env plain_digest) ''backup'' empty_disk)) = 404
   \<and> fst (fst (get_resource failing_env ''backup'' empty_disk)) = 500
   \<and> fst (get_info (disk_env plain_digest) ''backup'' empty_disk)
       = fst (get_info failing_env ''backup'' empty_disk)"
  by (simp add: get_info_def failing_env_def disk_env_def empty_disk_def)

text \<open>
  Claim C6, amended: \<^verbatim>\<open>get_info\<close> returns the mapping of the file entries when the
  status is 200 and raises \<^verbatim>\<open>FileNotFoundError\<close>, carrying only the remote path, for
  every other status; the not-found outcome is not distinguished from other failures.
\<close>

theorem get_info_outcome:
  "fst (get_info E remote_dir_path r)
     = (if fst (fst (get_resource E remote_dir_path r)) = 200
        then Inr (cloud_dict (snd (fst (get_resource E remote_dir_path r))))
        else Inl (FileNotFoundError remote_dir_path))"
  by (simp add: get_info_def case_prod_beta)

theorem get_info_outcome_witness:
  "fst (get_info failing_env ''backup'' empty_disk) = Inl (FileNotFoundError ''backup'')
   \<and> fst (get_info (disk_env plain_digest) ''backup'' stale_disk)
       = Inr [(''old.txt'', Some ''z'')]"
  using get_info_outcome[of failing_env "''backup''" empty_disk]
    get_info_outcome[of "disk_env plain_digest" "''backup''" stale_disk]
  by (simp add: failing_env_def disk_env_def stale_disk_def disk_items_def child_name_def
      cloud_dict_def slash_def)

section \<open>The first-run flag\<close>

lemma sync_folder_branch:
  "branch_taken (sync_folder E a local_folder first_run r)
     = (if first_run then Bootstrap else Incremental)"
  by (simp add: sync_folder_def Let_def case_prod_beta)

lemma sync_folder_flag:
  "first_run_after (sync_folder E a local_folder first_run r)
     = (case raised (sync_folder E a local_folder first_run r) of
          Some e \<Rightarrow> first_run | None \<Rightarrow> False)"
  by (simp add: sync_folder_def Let_def case_prod_beta)

lemma main_loop_incremental:
  "list_all (\<lambda>p. branch_taken p = Incremental) (main_loop E tok fld cycles False r)"
proof (induction cycles arbitrary: r)
  case Nil
  then show ?case by simp
next
  case (Cons c cycles)
  show ?case
  proof (cases c)
    case None
    with Cons show ?thesis by simp
  next
    case (Some local_folder)
    with Cons show ?thesis
      by (simp add: Let_def sync_folder_branch sync_folder_flag split: option.splits)
  qed
qed

text \<open>
  Claim C10: \<^verbatim>\<open>first_run\<close> belongs to the class, so it outlives the instance that each
  cycle constructs.  Once a \<^verbatim>\<open>sync_folder\<close> call has completed, a later call on any
  instance takes the incremental branch; and in every run of the coordinator, whatever
  the local folder looks like in each cycle, every pass after the first one takes the
  incremental branch.
\<close>

theorem bootstrap_at_most_once:
  "(raised (sync_folder E a local_folder first_run r) = None
      \<longrightarrow> branch_taken (sync_folder E a' local_folder'
             (first_run_after (sync_folder E a local_folder first_run r)) r') = Incremental)
   \<and> list_all (\<lambda>p. branch_taken p = Incremental) (tl (main_loop E tok fld cycles first_run r))"
proof -
  have "list_all (\<lambda>p. branch_taken p = Incremental) (tl (main_loop E tok fld cycles first_run r))"
  proof (induction cycles)
    case Nil
    then show ?case by simp
  next
    case (Cons c cycles)
    show ?case
    proof (cases c)
      case None
      with Cons show ?thesis by simp
    next
      case (Some lf)
      then show ?thesis
        using main_loop_incremental[of E tok fld cycles]
        by (simp add: Let_def sync_folder_flag split: option.splits)
    qed
  qed
  then show ?thesis
    by (simp add: sync_folder_branch sync_folder_flag)
qed

theorem bootstrap_at_most_once_witness:
  "raised (sync_folder (disk_env plain_digest) example_api example_tree True empty_disk) = None
   \<and> map branch_taken
       (main_loop (disk_env plain_digest) ''secret'' ''backup''
          [None, Some example_tree, Some example_tree, None, Some example_tree] True empty_disk)
     = [Bootstrap, Incremental, Incremental]"
proof -
  have run: "map branch_taken
       (main_loop (disk_env plain_digest) ''secret'' ''backup''
          [None, Some example_tree, Some example_tree, None, Some example_tree] True empty_disk)
     = [Bootstrap, Incremental, Incremental]"
    using example_pass1[of plain_digest] example_pass2[of plain_digest]
      example_pass3[of plain_digest]
    by (simp add: example_api_def Let_def)
  have "raised (sync_folder (disk_env plain_digest) example_api example_tree True empty_disk) = None"
    by (simp add: example_pass1)
  with run bootstrap_at_most_once[of "disk_env plain_digest" example_api example_tree True
      empty_disk example_api example_tree empty_disk "''secret''" "''backup''"
      "[None, Some example_tree, Some example_tree, None, Some example_tree]"]
  show ?thesis by simp
qed

section \<open>Names of a well-formed tree and \<^verbatim>\<open>validate_path\<close>\<close>

lemma hd_split_sep_Cons:
  "hd (split_sep c (x # xs)) = (if x = c then [] else x # hd (split_sep c xs))"
  using split_sep_not_Nil[of c xs] by (cases "split_sep c xs") auto

lemma tl_split_sep_Cons:
  "tl (split_sep c (x # xs)) = (if x = c then split_sep c xs else tl (split_sep c xs))"
  using split_sep_not_Nil[of c xs] by (cases "split_sep c xs") auto

lemma split_sep_hd_tl: "split_sep c s = hd (split_sep c s) # tl (split_sep c s)"
  using split_sep_not_Nil[of c s] by simp

lemma replace_backslash_Cons:
  "replace_backslash (x # xs) = (if x = backslash then slash else x) # replace_backslash xs"
  by (simp add: replace_backslash_def)

lemma prefix_hd_replace:
  "slash \<notin> set pre \<Longrightarrow> backslash \<notin> set pre \<Longrightarrow> prefix pre (hd (split_sep slash s))
     \<Longrightarrow> prefix pre (hd (split_sep slash (replace_backslash s)))"
proof (induction s arbitrary: pre)
  case Nil
  then show ?case by (simp add: replace_backslash_def)
next
  case (Cons x xs)
  show ?case
  proof (cases pre)
    case Nil
    then show ?thesis by simp
  next
    case (Cons c pre')
    with Cons.prems have x: "x \<noteq> slash" "x = c" "x \<noteq> backslash"
      and rest: "prefix pre' (hd (split_sep slash xs))"
      by (auto simp: hd_split_sep_Cons simp del: split_sep.simps split: if_splits)
    from Cons.prems Cons have "slash \<notin> set pre'" "backslash \<notin> set pre'" by auto
    from Cons.IH[OF this rest] x Cons show ?thesis
      by (simp add: replace_backslash_Cons hd_split_sep_Cons del: split_sep.simps)
  qed
qed

lemma excluded_hd_replace:
  "excluded_part (hd (split_sep slash s))
     \<Longrightarrow> excluded_part (hd (split_sep slash (replace_backslash s)))"
  unfolding excluded_part_def
  using prefix_hd_replace[of "''.''" s] prefix_hd_replace[of "''_''" s]
    prefix_hd_replace[of "''venv''" s]
  by (auto simp: slash_def backslash_def)

lemma excluded_tl_replace:
  "\<exists>p\<in>set (tl (split_sep slash s)). excluded_part p
     \<Longrightarrow> \<exists>p\<in>set (tl (split_sep slash (replace_backslash s))). excluded_part p"
proof (induction s)
  case Nil
  then show ?case by simp
next
  case (Cons x xs)
  show ?case
  proof (cases "x = slash")
    case True
    with Cons.prems have "\<exists>p\<in>set (split_sep slash xs). excluded_part p"
      by (simp add: tl_split_sep_Cons del: split_sep.simps)
    then have "excluded_part (hd (split_sep slash xs))
               \<or> (\<exists>p\<in>set (tl (split_sep slash xs)). excluded_part p)"
      using split_sep_hd_tl[of slash xs] by (metis set_ConsD)
    then have "excluded_part (hd (split_sep slash (replace_backslash xs)))
               \<or> (\<exists>p\<in>set (tl (split_sep slash (replace_backslash xs))). excluded_part p)"
      using excluded_hd_replace Cons.IH by blast
    then have "\<exists>p\<in>set (split_sep slash (replace_backslash xs)). excluded_part p"
      using split_sep_hd_tl[of slash "replace_backslash xs"]
      by (metis list.set_intros(1) list.set_intros(2))
    with True show ?thesis
      by (simp add: replace_backslash_Cons tl_split_sep_Cons slash_def backslash_def
          del: split_sep.simps)
  next
    case False
    with Cons.prems have "\<exists>p\<in>set (tl (split_sep slash xs)). excluded_part p"
      by (simp add: tl_split_sep_Cons del: split_sep.simps)
    then have IH: "\<exists>p\<in>set (tl (split_sep slash (replace_backslash xs))). excluded_part p"
      by (rule Cons.IH)
    show ?thesis
    proof (cases "x = backslash")
      case True
      from IH have "\<exists>p\<in>set (split_sep slash (replace_backslash xs)). excluded_part p"
        using split_sep_hd_tl[of slash "replace_backslash xs"]
        by (metis list.set_intros(2))
      with True show ?thesis
        by (simp add: replace_backslash_Cons tl_split_sep_Cons del: split_sep.simps)
    next
      case False
      with \<open>x \<noteq> slash\<close> IH show ?thesis
        by (simp add: replace_backslash_Cons tl_split_sep_Cons del: split_sep.simps)
    qed
  qed
qed

lemma validate_path_replace:
  assumes "validate_path (replace_backslash s)"
  shows "validate_path s"
proof -
  have "\<not> list_ex excluded_part (split_sep slash s)"
  proof
    assume "list_ex excluded_part (split_sep slash s)"
    then have "excluded_part (hd (split_sep slash s))
               \<or> (\<exists>p\<in>set (tl (split_sep slash s)). excluded_part p)"
      using split_sep_hd_tl[of slash s] by (metis list_ex_iff set_ConsD)
    then have "excluded_part (hd (split_sep slash (replace_backslash s)))
               \<or> (\<exists>p\<in>set (tl (split_sep slash (replace_backslash s))). excluded_part p)"
      using excluded_hd_replace excluded_tl_replace by blast
    then have "list_ex excluded_part (split_sep slash (replace_backslash s))"
      using split_sep_hd_tl[of slash "replace_backslash s"]
      by (metis list_ex_iff list.set_intros(1) list.set_intros(2))
    with assms show False by (simp add: validate_path_def)
  qed
  moreover have "CHR ''&'' \<notin> set s"
    using assms by (auto simp: validate_path_def replace_backslash_def backslash_def)
  ultimately show ?thesis by (simp add: validate_path_def)
qed

lemma successively_no_dotdot:
  "''..'' \<notin> set ps \<Longrightarrow> successively (\<lambda>p q. q = ''..'' \<longrightarrow> p = ''..'') ps"
proof (induction ps)
  case Nil
  then show ?case by simp
next
  case (Cons a ps)
  then show ?case by (cases ps) auto
qed

lemma normal_comps_real_names:
  assumes "list_all real_name ps"
  shows "normal_comps 0 ps"
proof -
  have parts: "\<forall>p\<in>set ps. p \<noteq> [] \<and> p \<noteq> ''.'' \<and> slash \<notin> set p"
    using assms by (simp add: list_all_iff real_name_def)
  have "''..'' \<notin> set ps"
    using assms by (auto simp: list_all_iff real_name_def)
  then have "successively (\<lambda>p q. q = ''..'' \<longrightarrow> p = ''..'') ps"
    by (rule successively_no_dotdot)
  with parts show ?thesis
    unfolding normal_comps_def by blast
qed

lemma normpath_real_names:
  assumes "list_all real_name ps" "ps \<noteq> []"
  shows "normpath (join_sep slash ps) = join_sep slash ps"
proof -
  have n: "normal_comps 0 ps" using assms(1) by (rule normal_comps_real_names)
  have parts: "\<forall>p\<in>set ps. slash \<notin> set p" "\<forall>p\<in>set ps. p \<noteq> []"
    using n by (auto simp: normal_comps_def)
  have nonempty: "join_sep slash ps \<noteq> []"
    using join_sep_Nil_iff[OF parts(2), of slash] assms(2) by simp
  have "initial_slashes (join_sep slash ps) = 0"
    using no_leading_slash[OF n] by (simp add: initial_slashes_def)
  moreover have "foldl (normpath_step 0) [] (split_sep slash (join_sep slash ps)) = ps"
    using n parts(1) assms(2) by (simp add: split_join normal_fixpoint)
  ultimately show ?thesis
    using nonempty by (simp add: normpath_def Let_def)
qed

lemma validate_path_segments:
  assumes "validate_path (join_sep slash ps)" "ps \<noteq> []" "\<forall>p\<in>set ps. slash \<notin> set p"
  shows "list_all (\<lambda>seg. \<not> excluded_part seg \<and> CHR ''&'' \<notin> set seg) ps"
proof -
  have "split_sep slash (join_sep slash ps) = ps"
    using assms(2,3) by (simp add: split_join)
  with assms(1) have excl: "\<forall>p\<in>set ps. \<not> excluded_part p"
    by (simp add: validate_path_def list_ex_iff)
  have "CHR ''&'' \<notin> set p" if "p \<in> set ps" for p
  proof
    assume "CHR ''&'' \<in> set p"
    with that have "CHR ''&'' \<in> set (join_sep slash ps)"
      by (induction slash ps rule: join_sep.induct) auto
    with assms(1) show False by (simp add: validate_path_def)
  qed
  with excl show ?thesis by (simp add: list_all_iff)
qed

lemma real_name_segments:
  assumes "list_all real_name root" "root \<noteq> []" "validate_path (sanitize_path (relpath root))"
  shows "list_all (\<lambda>seg. \<not> excluded_part seg \<and> CHR ''&'' \<notin> set seg) root"
proof -
  have "sanitize_path (relpath root) = replace_backslash (join_sep slash root)"
    using assms(1,2) by (simp add: sanitize_path_def relpath_def normpath_real_names)
  with assms(3) have "validate_path (join_sep slash root)"
    by (simp add: validate_path_replace)
  moreover have "\<forall>p\<in>set root. slash \<notin> set p"
    using assms(1) by (simp add: list_all_iff real_name_def)
  ultimately show ?thesis
    using assms(2) by (intro validate_path_segments) simp_all
qed

lemma real_name_segment:
  assumes "real_name file" "validate_path file"
  shows "\<not> excluded_part file \<and> CHR ''&'' \<notin> set file"
proof -
  have "slash \<notin> set file" using assms(1) by (simp add: real_name_def)
  then have "split_sep slash file = [file]" by (rule split_sep_no_sep)
  with assms(2) show ?thesis by (simp add: validate_path_def)
qed

section \<open>What a pass queues and issues\<close>

lemma queue_uploads_tasks:
  "t \<in> set (queue_uploads E a local_folder local_dir remote_path cloud_files local_files q)
     \<Longrightarrow> t \<in> set q \<or> (\<exists>file\<in>set local_files. fst t = local_dir @ [file])"
proof (induction local_files arbitrary: q)
  case Nil
  then show ?case by simp
next
  case (Cons name rest)
  from Cons.prems have
    "t \<in> set (queue_uploads E a local_folder local_dir remote_path cloud_files rest
                (if get_file_hash E local_folder (local_dir @ [name]) \<noteq> dict_get cloud_files name
                 then q @ [(local_dir @ [name], get_full_path a remote_path (Some name))]
                 else q))"
    by (simp add: Let_def)
  from Cons.IH[OF this] show ?case
    by (auto split: if_splits)
qed

lemma sync_directory_tasks:
  assumes "t \<in> set (fst (sync_directory E a local_folder local_dir es remote_path q r))"
  shows "t \<in> set q
         \<or> (\<exists>file\<in>set (listdir es). validate_path file \<and> fst t = local_dir @ [file])"
proof (cases "fst (get_info E (get_full_path a remote_path None)
                     (snd (create_folder E a remote_path r)))")
  case (Inl e)
  with assms show ?thesis
    by (simp add: sync_directory_def Let_def case_prod_beta)
next
  case (Inr cloud_files)
  with assms have
    "t \<in> set (queue_uploads E a local_folder local_dir remote_path cloud_files
                (filter (\<lambda>f. validate_path f \<and> isfile es f) (listdir es)) q)"
    by (simp add: sync_directory_def Let_def case_prod_beta)
  from queue_uploads_tasks[OF this] show ?thesis by auto
qed

lemma sync_subdirectories_tasks:
  "t \<in> set (fst (sync_subdirectories E a local_folder walked q r))
     \<Longrightarrow> t \<in> set q
         \<or> (\<exists>w\<in>set walked. fst w \<noteq> [] \<and> validate_path (sanitize_path (relpath (fst w)))
               \<and> (\<exists>file\<in>set (listdir (snd w)). validate_path file \<and> fst t = fst w @ [file]))"
proof (induction walked arbitrary: q r)
  case Nil
  then show ?case by simp
next
  case (Cons w walked)
  obtain root es where w: "w = (root, es)" by (cases w)
  show ?case
  proof (cases "root \<noteq> [] \<and> validate_path (sanitize_path (relpath root))")
    case True
    define d where "d = sync_directory E a local_folder root es
                          (Some (sanitize_path (relpath root))) q r"
    from Cons.prems w True have
      "t \<in> set (fst (sync_subdirectories E a local_folder walked (fst d) (fst (snd d))))"
      by (simp add: Let_def case_prod_beta d_def)
    from Cons.IH[OF this] show ?thesis
    proof
      assume "t \<in> set (fst d)"
      from sync_directory_tasks[OF this[unfolded d_def]] True w show ?thesis by auto
    next
      assume "\<exists>w\<in>set walked. fst w \<noteq> [] \<and> validate_path (sanitize_path (relpath (fst w)))
               \<and> (\<exists>file\<in>set (listdir (snd w)). validate_path file \<and> fst t = fst w @ [file])"
      then show ?thesis by auto
    qed
  next
    case False
    with Cons.prems w have "t \<in> set (fst (sync_subdirectories E a local_folder walked q r))"
      by auto
    from Cons.IH[OF this] show ?thesis by auto
  qed
qed

lemma sync_subdirectories_calls:
  "c \<in> set (snd (snd (sync_subdirectories E a local_folder walked q r)))
     \<Longrightarrow> \<not> is_upload c \<and> (\<forall>x. c = CreateFolder x \<longrightarrow> (\<exists>p. x = Some p \<and> validate_path p))"
proof (induction walked arbitrary: q r)
  case Nil
  then show ?case by simp
next
  case (Cons w walked)
  obtain root es where w: "w = (root, es)" by (cases w)
  show ?case
  proof (cases "root \<noteq> [] \<and> validate_path (sanitize_path (relpath root))")
    case True
    define d where "d = sync_directory E a local_folder root es
                          (Some (sanitize_path (relpath root))) q r"
    from Cons.prems w True have
      "c \<in> set (snd (snd d))
       \<or> c \<in> set (snd (snd (sync_subdirectories E a local_folder walked (fst d) (fst (snd d)))))"
      by (simp add: Let_def case_prod_beta d_def)
    then show ?thesis
    proof
      assume "c \<in> set (snd (snd d))"
      then show ?thesis
        using True unfolding d_def sync_directory_calls
        by (auto split: sum.splits)
    next
      assume "c \<in> set (snd (snd (sync_subdirectories E a local_folder walked (fst d) (fst (snd d)))))"
      then show ?thesis by (rule Cons.IH)
    qed
  next
    case False
    with Cons.prems w have
      "c \<in> set (snd (snd (sync_subdirectories E a local_folder walked q r)))"
      by auto
    then show ?thesis by (rule Cons.IH)
  qed
qed

lemma walk_node_names:
  "(root, es) \<in> set (walk_node pre nd) \<Longrightarrow> wf_node nd \<Longrightarrow> list_all real_name pre
     \<Longrightarrow> list_all real_name root \<and> list_all real_name (listdir es)"
proof (induction pre nd arbitrary: root es rule: walk_node.induct)
  case (1 pre content)
  then show ?case by simp
next
  case (2 pre sub)
  from "2.prems"(1) have
    "(root, es) = (pre, sub)
     \<or> (\<exists>e\<in>set sub. (root, es) \<in> set (walk_node (pre @ [fst e]) (snd e)))"
    by auto
  then show ?case
  proof
    assume "(root, es) = (pre, sub)"
    with "2.prems" show ?thesis
      by (auto simp: listdir_def list_all_iff)
  next
    assume "\<exists>e\<in>set sub. (root, es) \<in> set (walk_node (pre @ [fst e]) (snd e))"
    then obtain e where e: "e \<in> set sub" "(root, es) \<in> set (walk_node (pre @ [fst e]) (snd e))"
      by blast
    from e(1) "2.prems"(2) have "wf_node (snd e)" "real_name (fst e)"
      by (auto simp: list_all_iff)
    with "2.prems"(3) have "list_all real_name (pre @ [fst e])" by simp
    from "2.IH"[OF e(1) e(2) \<open>wf_node (snd e)\<close> this] show ?thesis .
  qed
qed

section \<open>Eligibility\<close>

text \<open>
  Claim C8: in every pass, the first or a later one, and whatever the remote store
  answers, an upload is only issued for a local file none of whose path segments
  (relative to the synchronised folder) starts with \<^verbatim>\<open>.\<close>, \<^verbatim>\<open>_\<close> or \<^verbatim>\<open>venv\<close> or
  contains \<^verbatim>\<open>&\<close>, and \<^verbatim>\<open>create_folder\<close> is only called for the synchronised folder
  itself or with a relative path that passes \<^verbatim>\<open>validate_path\<close>.  The local tree holds
  names a POSIX directory can hold.
\<close>

theorem excluded_paths_never_synced:
  assumes "wf_node (Dir local_folder)"
    and "c \<in> set (issued (sync_folder E a local_folder first_run r))"
  shows "(\<forall>file_path remote_path. c = Upload file_path remote_path
            \<longrightarrow> file_path \<noteq> []
                \<and> list_all (\<lambda>seg. \<not> excluded_part seg \<and> CHR ''&'' \<notin> set seg) file_path)
         \<and> (\<forall>path. c = CreateFolder (Some path) \<longrightarrow> validate_path path)"
proof -
  define root_sync where "root_sync = sync_directory E a local_folder [] local_folder None [] r"
  define sub_sync where "sub_sync = sync_subdirectories E a local_folder (walk local_folder)
                                      (fst root_sync) (fst (snd root_sync))"
  define tasks where "tasks = (if first_run then fst root_sync else fst sub_sync)"
  have walked: "list_all real_name root \<and> list_all real_name (listdir es)"
    if "(root, es) \<in> set (walk local_folder)" for root es
    using walk_node_names[OF that[unfolded walk_def] assms(1)] by simp
  have root_names: "list_all real_name (listdir local_folder)"
    using assms(1) by (simp add: listdir_def list_all_iff)
  have root_task: "list_all (\<lambda>seg. \<not> excluded_part seg \<and> CHR ''&'' \<notin> set seg) (fst t) \<and> fst t \<noteq> []"
    if "t \<in> set (fst root_sync)" for t
  proof -
    from sync_directory_tasks[OF that[unfolded root_sync_def]]
    obtain name where "name \<in> set (listdir local_folder)" "validate_path name" "fst t = [name]"
      by auto
    with root_names real_name_segment[of name] show ?thesis
      by (simp add: list_all_iff)
  qed
  have sub_task: "list_all (\<lambda>seg. \<not> excluded_part seg \<and> CHR ''&'' \<notin> set seg) (fst t) \<and> fst t \<noteq> []"
    if "t \<in> set (fst sub_sync)" for t
  proof -
    from sync_subdirectories_tasks[OF that[unfolded sub_sync_def]]
    show ?thesis
    proof
      assume "t \<in> set (fst root_sync)"
      then show ?thesis by (rule root_task)
    next
      assume "\<exists>w\<in>set (walk local_folder). fst w \<noteq> []
                \<and> validate_path (sanitize_path (relpath (fst w)))
                \<and> (\<exists>file\<in>set (listdir (snd w)). validate_path file \<and> fst t = fst w @ [file])"
      then obtain root es name where w: "(root, es) \<in> set (walk local_folder)" "root \<noteq> []"
        "validate_path (sanitize_path (relpath root))"
        "name \<in> set (listdir es)" "validate_path name" "fst t = root @ [name]"
        by auto
      from walked[OF w(1)] have names: "list_all real_name root" "list_all real_name (listdir es)"
        by simp_all
      from names(2) w(4) have "real_name name" by (simp add: list_all_iff)
      from this w(5) have "\<not> excluded_part name \<and> CHR ''&'' \<notin> set name"
        by (rule real_name_segment)
      with real_name_segments[OF names(1) w(2) w(3)] w(6) show ?thesis by simp
    qed
  qed
  have task: "list_all (\<lambda>seg. \<not> excluded_part seg \<and> CHR ''&'' \<notin> set seg) (fst t) \<and> fst t \<noteq> []"
    if "t \<in> set tasks" for t
    using that root_task sub_task by (auto simp: tasks_def split: if_splits)
  from assms(2) have
    "c \<in> set (snd (snd root_sync))
     \<or> (first_run \<and> c \<in> set (snd (create_folders_first E a local_folder (fst (snd root_sync)))))
     \<or> (\<not> first_run \<and> c \<in> set (snd (snd sub_sync)))
     \<or> c \<in> set (map (\<lambda>(f, p). Upload f p) tasks)"
    unfolding sync_folder_issued root_sync_def sub_sync_def tasks_def
    by (auto split: if_splits)
  then consider
      (root) "c \<in> set (snd (snd root_sync))"
    | (creates) "c \<in> set (snd (create_folders_first E a local_folder (fst (snd root_sync))))"
    | (subs) "c \<in> set (snd (snd sub_sync))"
    | (uploads) "c \<in> set (map (\<lambda>(f, p). Upload f p) tasks)"
    by blast
  then show ?thesis
  proof cases
    case root
    then show ?thesis
      unfolding root_sync_def sync_directory_calls by (auto split: sum.splits)
  next
    case creates
    then show ?thesis
      by (auto simp: create_folders_first_def create_folders_loop_calls)
  next
    case subs
    from sync_subdirectories_calls[OF subs[unfolded sub_sync_def]] show ?thesis by auto
  next
    case uploads
    then obtain t where "t \<in> set tasks" "c = Upload (fst t) (snd t)"
      by (auto simp: case_prod_beta)
    with task[of t] show ?thesis by simp
  qed
qed

theorem excluded_paths_never_synced_witness:
  "wf_node (Dir mixed_tree)
   \<and> Upload [''b'', ''b.txt''] ''backup/b/b.txt''
       \<in> set (issued (sync_folder (disk_env plain_digest) example_api mixed_tree False empty_disk))
   \<and> list_all (\<lambda>seg. \<not> excluded_part seg \<and> CHR ''&'' \<notin> set seg) [''b'', ''b.txt'']
   \<and> filter is_upload
         (issued (sync_folder (disk_env plain_digest) example_api mixed_tree False empty_disk))
       = [Upload [''a.txt''] ''backup/a.txt'', Upload [''b'', ''b.txt''] ''backup/b/b.txt'']"
proof -
  have wf: "wf_node (Dir mixed_tree)"
    by (simp add: mixed_tree_def real_name_def slash_def)
  have issued: "Upload [''b'', ''b.txt''] ''backup/b/b.txt''
       \<in> set (issued (sync_folder (disk_env plain_digest) example_api mixed_tree False empty_disk))"
    by (simp add: mixed_pass_issued)
  from excluded_paths_never_synced[OF wf issued]
  have "list_all (\<lambda>seg. \<not> excluded_part seg \<and> CHR ''&'' \<notin> set seg) [''b'', ''b.txt'']"
    by blast
  with wf issued show ?thesis
    by (simp add: mixed_pass_issued)
qed

end
